theory Spec2Isabelle
  imports Complex_Main
begin

section \<open>The opening-momentum strategy (strategy.py)\<close>

text \<open>
  Prices, volumes and money amounts are Python floats in the source; they are modelled
  as \<^typ>\<open>real\<close>, so every statement below is about exact arithmetic.  Log output
  (\<^verbatim>\<open>self.log\<close>) only prints and is left out.
\<close>

subsection \<open>Data\<close>

text \<open>A \<^verbatim>\<open>datetime.time\<close> without time zone: microseconds since midnight.\<close>

type_synonym time_of_day = nat

definition time :: "nat \<Rightarrow> nat \<Rightarrow> time_of_day" where
  "time h m = (h * 60 + m) * 60000000"

text \<open>\<^verbatim>\<open>(datetime.combine(date.today(), t) + timedelta(minutes=k)).time()\<close>\<close>

definition plus_minutes :: "time_of_day \<Rightarrow> nat \<Rightarrow> time_of_day" where
  "plus_minutes t k = (t + k * 60000000) mod 86400000000"

definition market_open :: time_of_day where
  "market_open = time 9 30"

definition market_close :: time_of_day where
  "market_close = time 15 45"

definition first_bar_close :: time_of_day where
  "first_bar_close = plus_minutes market_open 5"

text \<open>The class attribute \<^verbatim>\<open>params\<close> (without \<^verbatim>\<open>debug\<close>, which only switches logging).\<close>

record params =
  daily_loss_limit :: real
  fixed_size :: int
  trail_atr :: real
  vol_multiplier :: real
  multiplier :: real

definition default_params :: params where
  "default_params = \<lparr>daily_loss_limit = 200, fixed_size = 1, trail_atr = 3,
     vol_multiplier = 3, multiplier = 2\<rparr>"

text \<open>
  What the strategy reads from the broker while it handles one bar:
  \<^verbatim>\<open>self.position.size\<close>, \<^verbatim>\<open>self.position.price\<close> and \<^verbatim>\<open>self.broker.getvalue()\<close>.
  The broker is not part of the repository; its answers are inputs of the model.
\<close>

record broker =
  pos_size :: int
  pos_price :: real
  cash_value :: real

text \<open>
  The data lines at index 0 of one bar: date and time of \<^verbatim>\<open>datetime.datetime(0)\<close>,
  the OHLCV values, the previous close \<^verbatim>\<open>dataclose[-1]\<close>, and the two indicators
  declared in \<^verbatim>\<open>__init__\<close>, which have no value (\<open>None\<close>) until their minimum period
  is reached.
\<close>

record bar =
  bdate :: int
  btime :: time_of_day
  bopen :: real
  bhigh :: real
  blow :: real
  bclose :: real
  bvolume :: real
  prev_close :: real
  atr :: "real option"
  vol_ma :: "real option"

text \<open>The attributes set under "State tracking" in \<^verbatim>\<open>__init__\<close>.\<close>

record state =
  current_day :: "int option"
  start_day_value :: "real option"
  highest_high :: "real option"
  lowest_low :: "real option"
  trading_halted :: bool
  daily_realized_pnl :: real

definition init_state :: state where
  "init_state = \<lparr>current_day = None, start_day_value = None, highest_high = None,
     lowest_low = None, trading_halted = False, daily_realized_pnl = 0\<rparr>"

text \<open>The instructions the strategy gives to the broker, in the order of the calls.\<close>

datatype instr = Close | Buy int | Sell int

text \<open>The argument \<^verbatim>\<open>signal_type\<close> of \<^verbatim>\<open>reverse_position\<close>.\<close>

datatype signal = Trailing_Stop | Volume_Spike_Bearish | Volume_Spike_Bullish

text \<open>
  Which \<^verbatim>\<open>return\<close> of \<^verbatim>\<open>next\<close> was reached (or which callback ran).  The program does
  not read this value: it names the branch taken, and for the trade-management branch
  the signal with which \<^verbatim>\<open>reverse_position\<close> was called, if it was.
\<close>

datatype path =
    Prenext
  | Notified
  | Halted
  | Loss_Limit
  | Market_Close
  | First_Bar
  | Managed "signal option"

record result =
  st :: state
  instrs :: "instr list"
  path :: path

text \<open>\<^verbatim>\<open>max(None, x)\<close>, \<^verbatim>\<open>min(None, x)\<close> and \<^verbatim>\<open>None - x\<close> raise \<^verbatim>\<open>TypeError\<close>.\<close>

datatype error = TypeError

text \<open>
  A \<^verbatim>\<open>bt.Trade\<close>, as far as the repository reads it; \<^verbatim>\<open>dtclose\<close> is the float date
  number of the close.
\<close>

record trade =
  isclosed :: bool
  pnlcomm :: real
  dtclose :: real

subsection \<open>Callbacks and helpers\<close>

definition notify_trade :: "state \<Rightarrow> trade \<Rightarrow> state" where
  "notify_trade s t =
     (if \<not> isclosed t then s
      else s\<lparr>daily_realized_pnl := daily_realized_pnl s + pnlcomm t\<rparr>)"

definition start_of_day_reset :: "state \<Rightarrow> broker \<Rightarrow> state" where
  "start_of_day_reset s br =
     s\<lparr>daily_realized_pnl := 0, trading_halted := False,
       start_day_value := Some (cash_value br)\<rparr>"

definition unrealized_pnl :: "params \<Rightarrow> broker \<Rightarrow> bar \<Rightarrow> real" where
  "unrealized_pnl p br b =
     (if pos_size br \<noteq> 0 then
        (let diff = bclose b - pos_price br;
             diff = (if pos_size br < 0 then - diff else diff)
         in diff * multiplier p * real_of_int \<bar>pos_size br\<bar>)
      else 0)"

text \<open>Returns the new state, the instructions given and the returned truth value.\<close>

definition check_daily_loss_limit ::
    "params \<Rightarrow> state \<Rightarrow> broker \<Rightarrow> bar \<Rightarrow> state \<times> instr list \<times> bool" where
  "check_daily_loss_limit p s br b =
     (let total_daily_pnl = daily_realized_pnl s + unrealized_pnl p br b
      in if total_daily_pnl < - daily_loss_limit p
         then (s\<lparr>trading_halted := True\<rparr>, [Close], True)
         else (s, [], False))"

definition reverse_position ::
    "params \<Rightarrow> state \<Rightarrow> broker \<Rightarrow> bar \<Rightarrow> signal \<Rightarrow> state \<times> instr list" where
  "reverse_position p s br b signal_type =
     (let size = fixed_size p
      in if pos_size br > 0 then (s\<lparr>lowest_low := Some (blow b)\<rparr>, [Close, Sell size])
         else if pos_size br < 0 then (s\<lparr>highest_high := Some (bhigh b)\<rparr>, [Close, Buy size])
         else (s, []))"

subsection \<open>The steps of \<^verbatim>\<open>next\<close>\<close>

text \<open>Step 3, the body of \<^verbatim>\<open>if current_time == first_bar_close\<close>.\<close>

definition first_bar :: "params \<Rightarrow> state \<Rightarrow> broker \<Rightarrow> bar \<Rightarrow> state \<times> instr list" where
  "first_bar p s br b =
     (if pos_size br = 0 then
        (if bclose b > bopen b
         then (s\<lparr>highest_high := Some (bhigh b)\<rparr>, [Buy (fixed_size p)])
         else (s\<lparr>lowest_low := Some (blow b)\<rparr>, [Sell (fixed_size p)]))
      else (s, []))"

text \<open>Step 4, "Update Extremes".\<close>

definition update_extremes :: "state \<Rightarrow> broker \<Rightarrow> bar \<Rightarrow> error + state" where
  "update_extremes s br b =
     (if pos_size br > 0 then
        (case highest_high s of
           None \<Rightarrow> Inl TypeError
         | Some hh \<Rightarrow> Inr (s\<lparr>highest_high := Some (max hh (bhigh b))\<rparr>))
      else if pos_size br < 0 then
        (case lowest_low s of
           None \<Rightarrow> Inl TypeError
         | Some ll \<Rightarrow> Inr (s\<lparr>lowest_low := Some (min ll (blow b))\<rparr>))
      else Inr s)"

text \<open>
  Step 4 A, the trailing reversal.  The last component is \<^verbatim>\<open>reversal_triggered\<close>.
\<close>

definition trailing_reversal ::
    "params \<Rightarrow> state \<Rightarrow> broker \<Rightarrow> bar \<Rightarrow> real \<Rightarrow> error + (state \<times> instr list \<times> bool)" where
  "trailing_reversal p s br b atr0 =
     (let reversal_dist = atr0 * trail_atr p
      in if pos_size br > 0 then
           (case highest_high s of
              None \<Rightarrow> Inl TypeError
            | Some hh \<Rightarrow>
                if bclose b < hh - reversal_dist
                then (let (s', is) = reverse_position p s br b Trailing_Stop
                      in Inr (s', is, True))
                else Inr (s, [], False))
         else if pos_size br < 0 then
           (case lowest_low s of
              None \<Rightarrow> Inl TypeError
            | Some ll \<Rightarrow>
                if bclose b > ll + reversal_dist
                then (let (s', is) = reverse_position p s br b Trailing_Stop
                      in Inr (s', is, True))
                else Inr (s, [], False))
         else Inr (s, [], False))"

text \<open>
  Step 4 B, the volume reversal, run when \<^verbatim>\<open>reversal_triggered\<close> is false.  The last
  component is the signal passed to \<^verbatim>\<open>reverse_position\<close>, if it was called.
\<close>

definition volume_reversal ::
    "params \<Rightarrow> state \<Rightarrow> broker \<Rightarrow> bar \<Rightarrow> real \<Rightarrow> state \<times> instr list \<times> signal option" where
  "volume_reversal p s br b vol_ma0 =
     (let is_vol_spike = bvolume b > vol_ma0 * vol_multiplier p
      in if is_vol_spike then
           (if pos_size br > 0 then
              (if bclose b < prev_close b
               then (let (s', is) = reverse_position p s br b Volume_Spike_Bearish
                     in (s', is, Some Volume_Spike_Bearish))
               else (s, [], None))
            else if pos_size br < 0 then
              (if bclose b > prev_close b
               then (let (s', is) = reverse_position p s br b Volume_Spike_Bullish
                     in (s', is, Some Volume_Spike_Bullish))
               else (s, [], None))
            else (s, [], None))
         else (s, [], None))"

text \<open>Step 4 as a whole, the body of \<^verbatim>\<open>if self.position\<close>.\<close>

definition trade_management ::
    "params \<Rightarrow> state \<Rightarrow> broker \<Rightarrow> bar \<Rightarrow> real \<Rightarrow> real \<Rightarrow> error + result" where
  "trade_management p s br b atr0 vol_ma0 =
     (if pos_size br \<noteq> 0 then
        (case update_extremes s br b of
           Inl e \<Rightarrow> Inl e
         | Inr s1 \<Rightarrow>
             (case trailing_reversal p s1 br b atr0 of
                Inl e \<Rightarrow> Inl e
              | Inr (s2, is, reversal_triggered) \<Rightarrow>
                  if \<not> reversal_triggered then
                    (let (s3, is3, sig) = volume_reversal p s2 br b vol_ma0
                     in Inr \<lparr>st = s3, instrs = is @ is3, path = Managed sig\<rparr>)
                  else Inr \<lparr>st = s2, instrs = is, path = Managed (Some Trailing_Stop)\<rparr>))
      else Inr \<lparr>st = s, instrs = [], path = Managed None\<rparr>)"

text \<open>Step 0, "New Day Logic".\<close>

definition new_day_logic :: "state \<Rightarrow> broker \<Rightarrow> bar \<Rightarrow> state" where
  "new_day_logic s br b =
     (if current_day s \<noteq> Some (bdate b)
      then start_of_day_reset (s\<lparr>current_day := Some (bdate b)\<rparr>) br
      else s)"

text \<open>
  \<^verbatim>\<open>next\<close>, for a bar on which both indicators have the values \<open>atr0\<close> and \<open>vol_ma0\<close>.
\<close>

definition "next" ::
    "params \<Rightarrow> state \<Rightarrow> broker \<Rightarrow> bar \<Rightarrow> real \<Rightarrow> real \<Rightarrow> error + result" where
  "next p s br b atr0 vol_ma0 =
     (let s1 = new_day_logic s br b
      in if trading_halted s1 then Inr \<lparr>st = s1, instrs = [], path = Halted\<rparr>
         else
           (let (s2, is2, breached) = check_daily_loss_limit p s1 br b
            in if breached then Inr \<lparr>st = s2, instrs = is2, path = Loss_Limit\<rparr>
               else if btime b \<ge> market_close then
                 Inr \<lparr>st = s2, instrs = is2 @ (if pos_size br \<noteq> 0 then [Close] else []),
                      path = Market_Close\<rparr>
               else if btime b = first_bar_close then
                 (let (s3, is3) = first_bar p s2 br b
                  in Inr \<lparr>st = s3, instrs = is2 @ is3, path = First_Bar\<rparr>)
               else
                 (case trade_management p s2 br b atr0 vol_ma0 of
                    Inl e \<Rightarrow> Inl e
                  | Inr r \<Rightarrow> Inr (r\<lparr>instrs := is2 @ instrs r\<rparr>))))"

subsection \<open>The framework's calls\<close>

text \<open>
  The class does not override \<^verbatim>\<open>prenext\<close>: while an indicator of \<^verbatim>\<open>__init__\<close> has not
  reached its minimum period the framework calls the inherited \<^verbatim>\<open>prenext\<close>, which does
  nothing, instead of \<^verbatim>\<open>next\<close>.  Closed trades are reported through \<^verbatim>\<open>notify_trade\<close>.
\<close>

datatype event = Bar_Event broker bar | Trade_Event trade

definition prenext :: "state \<Rightarrow> result" where
  "prenext s = \<lparr>st = s, instrs = [], path = Prenext\<rparr>"

definition dispatch :: "params \<Rightarrow> state \<Rightarrow> event \<Rightarrow> error + result" where
  "dispatch p s ev =
     (case ev of
        Trade_Event t \<Rightarrow> Inr \<lparr>st = notify_trade s t, instrs = [], path = Notified\<rparr>
      | Bar_Event br b \<Rightarrow>
          (case (atr b, vol_ma b) of
             (Some atr0, Some vol_ma0) \<Rightarrow> next p s br b atr0 vol_ma0
           | _ \<Rightarrow> Inr (prenext s)))"

text \<open>The results of a whole run; an exception ends it.\<close>

fun run :: "params \<Rightarrow> state \<Rightarrow> event list \<Rightarrow> (error + result) list" where
  "run p s [] = []"
| "run p s (ev # evs) =
     (case dispatch p s ev of
        Inl e \<Rightarrow> [Inl e]
      | Inr r \<Rightarrow> Inr r # run p (st r) evs)"

subsection \<open>Streams of events\<close>

text \<open>The bars of a stream, in order.\<close>

fun bars_of :: "event list \<Rightarrow> bar list" where
  "bars_of [] = []"
| "bars_of (Bar_Event br b # evs) = b # bars_of evs"
| "bars_of (Trade_Event t # evs) = bars_of evs"

text \<open>Bar \<open>b1\<close> has an earlier timestamp than bar \<open>b2\<close>.\<close>

definition ts_before :: "bar \<Rightarrow> bar \<Rightarrow> bool" where
  "ts_before b1 b2 = (bdate b1 < bdate b2 \<or> (bdate b1 = bdate b2 \<and> btime b1 < btime b2))"

text \<open>
  The event is a bar of date \<open>d\<close>; and: the event does not leave date \<open>d\<close> (a bar of that
  date, or a trade notification).
\<close>

definition on_day :: "int \<Rightarrow> event \<Rightarrow> bool" where
  "on_day d ev = (case ev of Bar_Event br b \<Rightarrow> bdate b = d | Trade_Event t \<Rightarrow> False)"

definition same_day :: "int \<Rightarrow> event \<Rightarrow> bool" where
  "same_day d ev = (case ev of Bar_Event br b \<Rightarrow> bdate b = d | Trade_Event t \<Rightarrow> True)"

text \<open>The event is a bar on which an indicator has no value yet.\<close>

definition warming_up :: "event \<Rightarrow> bool" where
  "warming_up ev = (case ev of Bar_Event br b \<Rightarrow> atr b = None \<or> vol_ma b = None
     | Trade_Event t \<Rightarrow> False)"

subsection \<open>What a step did\<close>

text \<open>The step signalled the daily-loss breach.\<close>

definition is_halt :: "error + result \<Rightarrow> bool" where
  "is_halt x = (case x of Inl e \<Rightarrow> False | Inr r \<Rightarrow> path r = Loss_Limit)"

text \<open>
  The step of a halted day \<open>d\<close>: it returned before the loss check, gave no instruction,
  and the strategy is still halted on \<open>d\<close>.
\<close>

definition idle :: "int \<Rightarrow> error + result \<Rightarrow> bool" where
  "idle d x = (case x of Inl e \<Rightarrow> False
     | Inr r \<Rightarrow> instrs r = [] \<and> trading_halted (st r) \<and> current_day (st r) = Some d \<and>
         (path r = Halted \<or> path r = Prenext \<or> path r = Notified))"

text \<open>The step was a \<^verbatim>\<open>prenext\<close> and gave no instruction.\<close>

definition no_instr :: "error + result \<Rightarrow> bool" where
  "no_instr x = (case x of Inl e \<Rightarrow> False | Inr r \<Rightarrow> instrs r = [] \<and> path r = Prenext)"

text \<open>An entry: one opening order, with no \<open>Close\<close> before it.\<close>

fun opens :: "instr list \<Rightarrow> bool" where
  "opens [Buy n] = True"
| "opens [Sell n] = True"
| "opens is = False"

definition is_entry :: "error + result \<Rightarrow> bool" where
  "is_entry x = (case x of Inl e \<Rightarrow> False | Inr r \<Rightarrow> opens (instrs r))"




text \<open>
  How many steps of a run, given with its events, signalled the breach on date \<open>d\<close>, and
  how many gave an entry on date \<open>d\<close>.
\<close>

definition halt_count :: "int \<Rightarrow> event list \<Rightarrow> (error + result) list \<Rightarrow> nat" where
  "halt_count d evs xs = length (filter (\<lambda>(ev, x). on_day d ev \<and> is_halt x) (zip evs xs))"

definition entry_count :: "int \<Rightarrow> event list \<Rightarrow> (error + result) list \<Rightarrow> nat" where
  "entry_count d evs xs = length (filter (\<lambda>(ev, x). on_day d ev \<and> is_entry x) (zip evs xs))"

subsection \<open>The conditions the specification names\<close>

text \<open>
  The conditions under which \<^verbatim>\<open>next\<close> gets past its first returns: to step 3 (the entry
  bar) and to step 4 (trade management).
\<close>

definition reaches_first_bar :: "params \<Rightarrow> state \<Rightarrow> broker \<Rightarrow> bar \<Rightarrow> bool" where
  "reaches_first_bar p s br b =
     (\<not> trading_halted (new_day_logic s br b) \<and>
      \<not> daily_realized_pnl (new_day_logic s br b) + unrealized_pnl p br b < - daily_loss_limit p \<and>
      btime b = first_bar_close)"




subsection \<open>Example inputs\<close>

text \<open>A bar with both indicators available; the previous close is the open.\<close>

definition mk_bar :: "int \<Rightarrow> time_of_day \<Rightarrow> real \<Rightarrow> real \<Rightarrow> real \<Rightarrow> real \<Rightarrow> bar" where
  "mk_bar d t opn hi lo cl = \<lparr>bdate = d, btime = t, bopen = opn, bhigh = hi, blow = lo,
     bclose = cl, bvolume = 1000, prev_close = opn, atr = Some 10, vol_ma = Some 1000\<rparr>"

definition long_state :: state where
  "long_state = \<lparr>current_day = Some 1, start_day_value = Some 5000, highest_high = Some 5010,
     lowest_low = None, trading_halted = False, daily_realized_pnl = 0\<rparr>"

definition long_broker :: broker where
  "long_broker = \<lparr>pos_size = 1, pos_price = 5005, cash_value = 5000\<rparr>"

definition flat_broker :: broker where
  "flat_broker = \<lparr>pos_size = 0, pos_price = 0, cash_value = 5000\<rparr>"

definition loss_bar :: bar where
  "loss_bar = mk_bar 1 (time 10 0) 5000 5000 4890 4900"

definition halted_state :: state where
  "halted_state = long_state\<lparr>trading_halted := True\<rparr>"

definition rest_of_day :: "event list" where
  "rest_of_day =
     [Trade_Event \<lparr>isclosed = True, pnlcomm = - 215, dtclose = 1\<rparr>,
      Bar_Event flat_broker (mk_bar 1 (time 10 5) 4900 4950 4900 4950),
      Bar_Event flat_broker (mk_bar 1 (time 15 50) 4950 4950 4950 4950)]"

definition next_day_bar :: bar where
  "next_day_bar = mk_bar 2 (time 9 30) 5000 5005 5000 5005"

definition short_state :: state where
  "short_state = \<lparr>current_day = Some 1, start_day_value = Some 5000, highest_high = None,
     lowest_low = Some 4990, trading_halted = False, daily_realized_pnl = 0\<rparr>"

definition short_broker :: broker where
  "short_broker = \<lparr>pos_size = - 1, pos_price = 4995, cash_value = 5000\<rparr>"

definition falling_bar :: bar where
  "falling_bar = mk_bar 1 (time 10 0) 5008 5020 4990 4995"

definition rising_bar :: bar where
  "rising_bar = mk_bar 1 (time 10 0) 4990 5000 4985 5000"

definition close_window_bar :: bar where
  "close_window_bar = mk_bar 1 (time 15 50) 5008 5020 4990 4995"

definition warmup_bar :: bar where
  "warmup_bar = (mk_bar 1 (time 9 35) 5000 5010 4995 5005)\<lparr>atr := None, vol_ma := None\<rparr>"

definition half_warm_bar :: bar where
  "half_warm_bar = (mk_bar 1 (time 9 35) 5000 5010 4995 5005)\<lparr>vol_ma := None\<rparr>"


definition entry_bar :: bar where
  "entry_bar = mk_bar 1 (time 9 35) 5000 5010 4995 5005"

definition down_entry_bar :: bar where
  "down_entry_bar = mk_bar 2 (time 9 35) 5000 5010 4995 5000"

definition two_days :: "event list" where
  "two_days =
     [Bar_Event flat_broker (mk_bar 1 (time 9 30) 5000 5001 4999 5000),
      Bar_Event flat_broker entry_bar,
      Bar_Event long_broker (mk_bar 1 (time 9 40) 5005 5008 5004 5006),
      Bar_Event long_broker (mk_bar 1 (time 15 45) 5006 5007 5005 5006),
      Trade_Event \<lparr>isclosed = True, pnlcomm = 1, dtclose = 1\<rparr>,
      Bar_Event flat_broker down_entry_bar]"

section \<open>The Monte Carlo analysis (monte\_carlo.py)\<close>

text \<open>
  The module-level code after the backtest: the aggregation of the closed trades into
  daily values, and the resampling loop.  Plotting and printing are left out.
\<close>

datatype sim_error = KeyError | IndexError | ZeroDivisionError

subsection \<open>Daily PnL aggregation\<close>

text \<open>
  \<^verbatim>\<open>daily_pnls\<close> is a \<^verbatim>\<open>dict\<close>, which keeps its keys in insertion order: an association
  list with one pair per key.  \<open>dict_set\<close> is \<^verbatim>\<open>d[k] = v\<close>: an existing key keeps its place,
  a new key goes to the end.
\<close>

fun dict_set :: "('k \<times> 'v) list \<Rightarrow> 'k \<Rightarrow> 'v \<Rightarrow> ('k \<times> 'v) list" where
  "dict_set [] k v = [(k, v)]"
| "dict_set ((k', v') # d) k v =
     (if k' = k then (k, v) # d else (k', v') # dict_set d k v)"

definition dict_get :: "('k \<times> 'v) list \<Rightarrow> 'k \<Rightarrow> sim_error + 'v" where
  "dict_get d k = (case map_of d k of None \<Rightarrow> Inl KeyError | Some v \<Rightarrow> Inr v)"

text \<open>
  The body of \<^verbatim>\<open>for trade in trade_list\<close>.  The conversion
  \<^verbatim>\<open>bt.num2date(date).date()\<close> belongs to the framework and is the parameter \<open>num2date\<close>;
  dates are day numbers.
\<close>

definition add_trade ::
    "(real \<Rightarrow> int) \<Rightarrow> (int \<times> real) list \<Rightarrow> trade \<Rightarrow> sim_error + (int \<times> real) list" where
  "add_trade num2date daily_pnls t =
     (let date = dtclose t;
          date_key = num2date date;
          pnl = pnlcomm t;
          daily_pnls = (if date_key \<notin> set (map fst daily_pnls)
                        then dict_set daily_pnls date_key 0 else daily_pnls)
      in case dict_get daily_pnls date_key of
           Inl e \<Rightarrow> Inl e
         | Inr v \<Rightarrow> Inr (dict_set daily_pnls date_key (v + pnl)))"

fun aggregate ::
    "(real \<Rightarrow> int) \<Rightarrow> (int \<times> real) list \<Rightarrow> trade list \<Rightarrow> sim_error + (int \<times> real) list" where
  "aggregate num2date daily_pnls [] = Inr daily_pnls"
| "aggregate num2date daily_pnls (t # trade_list) =
     (case add_trade num2date daily_pnls t of
        Inl e \<Rightarrow> Inl e
      | Inr daily_pnls' \<Rightarrow> aggregate num2date daily_pnls' trade_list)"

text \<open>\<^verbatim>\<open>pnl_sequence = list(daily_pnls.values())\<close>, from the empty dictionary.\<close>

definition pnl_sequence_of :: "(real \<Rightarrow> int) \<Rightarrow> trade list \<Rightarrow> sim_error + real list" where
  "pnl_sequence_of num2date trade_list =
     (case aggregate num2date [] trade_list of
        Inl e \<Rightarrow> Inl e
      | Inr daily_pnls \<Rightarrow> Inr (map snd daily_pnls))"

subsection \<open>Resampling\<close>

definition SIMULATIONS :: int where
  "SIMULATIONS = 1000"

definition STARTING_EQUITY :: real where
  "STARTING_EQUITY = 5000"

text \<open>
  Subscription \<^verbatim>\<open>xs[i]\<close> of a Python list: an index from \<open>-len(xs)\<close> up to \<open>-1\<close>
  counts from the end, and any index outside \<open>-len(xs) .. len(xs) - 1\<close> raises.
\<close>

definition getitem :: "'a list \<Rightarrow> int \<Rightarrow> sim_error + 'a" where
  "getitem xs i =
     (if 0 \<le> i \<and> i < int (length xs) then Inr (xs ! nat i)
      else if i < 0 \<and> - int (length xs) \<le> i then Inr (xs ! nat (int (length xs) + i))
      else Inl IndexError)"

text \<open>
  \<^verbatim>\<open>random.choices(population, k=k)\<close> without weights is
  \<^verbatim>\<open>[population[floor(random() * n)] for i in range(k)]\<close>.  The values that
  \<^verbatim>\<open>random()\<close> returns one after the other are the input \<open>random\<close>; \<open>pos\<close> counts
  the values used so far.
\<close>

fun choices :: "(nat \<Rightarrow> real) \<Rightarrow> nat \<Rightarrow> real list \<Rightarrow> nat \<Rightarrow> sim_error + real list" where
  "choices random pos population 0 = Inr []"
| "choices random pos population (Suc k) =
     (case getitem population \<lfloor>random pos * real (length population)\<rfloor> of
        Inl e \<Rightarrow> Inl e
      | Inr x \<Rightarrow>
          (case choices random (Suc pos) population k of
             Inl e \<Rightarrow> Inl e
           | Inr xs \<Rightarrow> Inr (x # xs)))"

text \<open>
  The loop \<^verbatim>\<open>for pnl in daily_seq\<close> on the variables \<^verbatim>\<open>equity\<close>, \<^verbatim>\<open>peak\<close> and
  \<^verbatim>\<open>drawdown\<close>.  A float division by zero raises \<^verbatim>\<open>ZeroDivisionError\<close>.
\<close>

fun walk :: "real list \<Rightarrow> real list \<Rightarrow> real \<Rightarrow> real \<Rightarrow> sim_error + (real list \<times> real \<times> real)" where
  "walk [] equity peak drawdown = Inr (equity, peak, drawdown)"
| "walk (pnl # daily_seq) equity peak drawdown =
     (let new_val = last equity + pnl;
          equity = equity @ [new_val];
          peak = (if new_val > peak then new_val else peak)
      in if peak = 0 then Inl ZeroDivisionError
         else
           (let dd = (peak - new_val) / peak;
                drawdown = (if dd > drawdown then dd else drawdown)
            in walk daily_seq equity peak drawdown))"

text \<open>
  One trial, from the drawn sequence on: what it appends to \<^verbatim>\<open>final_equities\<close>,
  \<^verbatim>\<open>max_drawdowns\<close> and \<^verbatim>\<open>all_curves\<close>.
\<close>

record trial =
  final_equity :: real
  max_drawdown :: real
  curve :: "real list"

definition run_trial :: "real \<Rightarrow> real list \<Rightarrow> sim_error + trial" where
  "run_trial starting_equity daily_seq =
     (case walk daily_seq [starting_equity] starting_equity 0 of
        Inl e \<Rightarrow> Inl e
      | Inr (equity, peak, drawdown) \<Rightarrow>
          Inr \<lparr>final_equity = last equity, max_drawdown = drawdown * 100, curve = equity\<rparr>)"

text \<open>
  The loop \<^verbatim>\<open>for i in range(SIMULATIONS)\<close>, with the number of rounds left as a natural
  number.  The three result lists are kept as one list of trials in the same order.
\<close>

fun simulations ::
    "(nat \<Rightarrow> real) \<Rightarrow> nat \<Rightarrow> real list \<Rightarrow> real \<Rightarrow> nat \<Rightarrow> sim_error + trial list" where
  "simulations random pos pnl_sequence starting_equity 0 = Inr []"
| "simulations random pos pnl_sequence starting_equity (Suc n) =
     (let days = length pnl_sequence
      in case choices random pos pnl_sequence days of
           Inl e \<Rightarrow> Inl e
         | Inr daily_seq \<Rightarrow>
             (case run_trial starting_equity daily_seq of
                Inl e \<Rightarrow> Inl e
              | Inr t \<Rightarrow>
                  (case simulations random (pos + days) pnl_sequence starting_equity n of
                     Inl e \<Rightarrow> Inl e
                   | Inr ts \<Rightarrow> Inr (t # ts))))"

text \<open>\<^verbatim>\<open>range(n)\<close> is empty for \<open>n \<le> 0\<close>.\<close>

definition run_simulations ::
    "(nat \<Rightarrow> real) \<Rightarrow> real list \<Rightarrow> int \<Rightarrow> real \<Rightarrow> sim_error + trial list" where
  "run_simulations random pnl_sequence num_trials starting_equity =
     simulations random 0 pnl_sequence starting_equity (nat num_trials)"

definition monte_carlo :: "(nat \<Rightarrow> real) \<Rightarrow> real list \<Rightarrow> sim_error + trial list" where
  "monte_carlo random pnl_sequence =
     run_simulations random pnl_sequence SIMULATIONS STARTING_EQUITY"

subsection \<open>What the specification says of a trial\<close>

definition running_peak :: "real list \<Rightarrow> nat \<Rightarrow> real" where
  "running_peak equity i = Max (set (take (Suc i) equity))"

definition drawdown_at :: "real list \<Rightarrow> nat \<Rightarrow> real" where
  "drawdown_at equity i = (running_peak equity i - equity ! i) / running_peak equity i"

definition spec_max_drawdown :: "real list \<Rightarrow> real" where
  "spec_max_drawdown equity = Max (set (map (drawdown_at equity) [0..<length equity]))"

text \<open>Every value of \<^verbatim>\<open>random()\<close> lies in the half-open interval from 0 to 1.\<close>

definition unit_interval :: "(nat \<Rightarrow> real) \<Rightarrow> bool" where
  "unit_interval random = (\<forall>i. 0 \<le> random i \<and> random i < 1)"

text \<open>The keys of a list in the order of their first occurrence.\<close>

definition first_seen :: "'a list \<Rightarrow> 'a list" where
  "first_seen ks = rev (remdups (rev ks))"



subsection \<open>Example inputs\<close>

definition day_floor :: "real \<Rightarrow> int" where
  "day_floor x = \<lfloor>x\<rfloor>"

definition mk_trade :: "real \<Rightarrow> real \<Rightarrow> trade" where
  "mk_trade d pnl = \<lparr>isclosed = True, pnlcomm = pnl, dtclose = d\<rparr>"

definition three_trades :: "trade list" where
  "three_trades = [mk_trade 1 10, mk_trade 2 (- 5), mk_trade 1 7]"

definition half_random :: "nat \<Rightarrow> real" where
  "half_random i = 1 / 2"

definition zero_random :: "nat \<Rightarrow> real" where
  "zero_random i = 0"

section \<open>Properties of the strategy\<close>

subsection \<open>Unfolding and evaluation\<close>

lemmas time_defs = market_close_def market_open_def first_bar_close_def plus_minutes_def time_def

lemmas strategy_defs = dispatch_def next_def new_day_logic_def check_daily_loss_limit_def
  unrealized_pnl_def start_of_day_reset_def first_bar_def trade_management_def
  update_extremes_def trailing_reversal_def volume_reversal_def reverse_position_def
  notify_trade_def prenext_def time_defs

lemmas example_defs = long_state_def long_broker_def flat_broker_def mk_bar_def loss_bar_def
  halted_state_def rest_of_day_def next_day_bar_def default_params_def short_state_def
  short_broker_def falling_bar_def rising_bar_def close_window_bar_def

lemma first_bar_close_eq: "first_bar_close = time 9 35"
  by (simp add: time_defs)

lemma first_bar_before_close: "first_bar_close < market_close"
  by (simp add: time_defs)

subsection \<open>Halting on the daily loss limit\<close>

lemma next_halted_same_day:
  "trading_halted s \<Longrightarrow> current_day s = Some (bdate b) \<Longrightarrow>
   next p s br b a v = Inr \<lparr>st = s, instrs = [], path = Halted\<rparr>"
  by (simp add: next_def new_day_logic_def)

lemma dispatch_halted_idle:
  assumes "trading_halted s" "current_day s = Some d" "same_day d ev"
  shows "\<exists>r. dispatch p s ev = Inr r \<and> idle d (Inr r)"
proof (cases ev)
  case (Bar_Event br b)
  with assms have "bdate b = d" by (simp add: same_day_def)
  with assms Bar_Event show ?thesis
    by (auto simp: dispatch_def idle_def prenext_def next_halted_same_day split: option.splits)
next
  case (Trade_Event t)
  with assms show ?thesis
    by (simp add: dispatch_def idle_def notify_trade_def)
qed

lemma run_halted_idle:
  "trading_halted s \<Longrightarrow> current_day s = Some d \<Longrightarrow> \<forall>ev\<in>set evs. same_day d ev \<Longrightarrow>
   length (run p s evs) = length evs \<and> list_all (idle d) (run p s evs)"
proof (induction evs arbitrary: s)
  case Nil
  then show ?case by simp
next
  case (Cons ev evs)
  then obtain r where r: "dispatch p s ev = Inr r" "idle d (Inr r)"
    using dispatch_halted_idle[of s d ev p] by auto
  then have "trading_halted (st r)" "current_day (st r) = Some d"
    by (auto simp: idle_def)
  with Cons have "length (run p (st r) evs) = length evs \<and> list_all (idle d) (run p (st r) evs)"
    by simp
  with r show ?case by simp
qed

lemma next_loss_limit:
  "next p s br b a v = Inr r \<Longrightarrow> path r = Loss_Limit \<Longrightarrow>
   trading_halted (st r) \<and> current_day (st r) = Some (bdate b) \<and> instrs r = [Close]"
  by (auto simp: next_def new_day_logic_def Let_def check_daily_loss_limit_def start_of_day_reset_def first_bar_def
      trade_management_def volume_reversal_def
      split: if_splits prod.splits sum.splits)

lemma dispatch_unhalt:
  "trading_halted s \<Longrightarrow> dispatch p s ev = Inr r \<Longrightarrow> \<not> trading_halted (st r) \<Longrightarrow>
   \<exists>br b. ev = Bar_Event br b \<and> current_day s \<noteq> Some (bdate b)"
  by (cases ev)
     (auto simp: dispatch_def prenext_def notify_trade_def next_halted_same_day
           split: option.splits if_splits)

lemma halt_count_Nil [simp]: "halt_count d [] xs = 0" "halt_count d evs [] = 0"
  by (simp_all add: halt_count_def)

lemma halt_count_Cons [simp]:
  "halt_count d (ev # evs) (x # xs) =
     (if on_day d ev \<and> is_halt x then 1 else 0) + halt_count d evs xs"
  by (simp add: halt_count_def)

lemma halt_count_other_days:
  "\<forall>b\<in>set (bars_of evs). bdate b \<noteq> d \<Longrightarrow> halt_count d evs xs = 0"
proof (induction evs arbitrary: xs)
  case Nil
  then show ?case by simp
next
  case (Cons ev evs)
  show ?case
  proof (cases xs)
    case Nil
    then show ?thesis by simp
  next
    case (Cons x xs')
    with Cons.prems Cons.IH[of xs'] show ?thesis
      by (cases ev) (auto simp: on_day_def)
  qed
qed

lemma halt_count_after_halt:
  "trading_halted s \<Longrightarrow> current_day s = Some d \<Longrightarrow> sorted (map bdate (bars_of evs)) \<Longrightarrow>
   \<forall>b\<in>set (bars_of evs). d \<le> bdate b \<Longrightarrow> halt_count d evs (run p s evs) = 0"
proof (induction evs arbitrary: s)
  case Nil
  then show ?case by simp
next
  case (Cons ev evs)
  show ?case
  proof (cases "same_day d ev")
    case True
    with Cons.prems obtain r where r: "dispatch p s ev = Inr r" "idle d (Inr r)"
      using dispatch_halted_idle[of s d ev p] by auto
    then have h: "trading_halted (st r)" "current_day (st r) = Some d" "\<not> is_halt (Inr r)"
      by (auto simp: idle_def is_halt_def)
    from Cons.prems have "sorted (map bdate (bars_of evs))" "\<forall>b\<in>set (bars_of evs). d \<le> bdate b"
      by (cases ev; simp)+
    with Cons.IH[of "st r"] h have "halt_count d evs (run p (st r) evs) = 0" by simp
    with r h show ?thesis by simp
  next
    case False
    then obtain br b where ev: "ev = Bar_Event br b" "bdate b \<noteq> d"
      by (cases ev) (auto simp: same_day_def)
    with Cons.prems have "d < bdate b" by auto
    with Cons.prems ev have later: "\<forall>b'\<in>set (bars_of evs). bdate b' \<noteq> d" by auto
    have nd: "\<not> on_day d ev" using ev by (simp add: on_day_def)
    show ?thesis
    proof (cases "dispatch p s ev")
      case (Inl e)
      with nd show ?thesis by simp
    next
      case (Inr r)
      with nd halt_count_other_days[OF later] show ?thesis by simp
    qed
  qed
qed

lemma dispatch_loss_limit:
  "dispatch p s ev = Inr r \<Longrightarrow> path r = Loss_Limit \<Longrightarrow>
   \<exists>br b. ev = Bar_Event br b \<and> trading_halted (st r) \<and> current_day (st r) = Some (bdate b) \<and> instrs r = [Close]"
  by (cases ev) (auto simp: dispatch_def prenext_def dest: next_loss_limit split: option.splits)

lemma halt_count_le_1:
  "sorted (map bdate (bars_of evs)) \<Longrightarrow> halt_count d evs (run p s evs) \<le> 1"
proof (induction evs arbitrary: s)
  case Nil
  then show ?case by simp
next
  case (Cons ev evs)
  from Cons.prems have sorted_tl: "sorted (map bdate (bars_of evs))"
    by (cases ev) simp_all
  show ?case
  proof (cases "dispatch p s ev")
    case (Inl e)
    then show ?thesis by simp
  next
    case (Inr r)
    show ?thesis
    proof (cases "on_day d ev \<and> is_halt (Inr r)")
      case True
      then have "path r = Loss_Limit" by (simp add: is_halt_def)
      with Inr obtain br b where ev: "ev = Bar_Event br b" "trading_halted (st r)"
          "current_day (st r) = Some (bdate b)"
        using dispatch_loss_limit by blast
      with True have d: "bdate b = d" by (simp add: on_day_def)
      with Cons.prems ev have "\<forall>b'\<in>set (bars_of evs). d \<le> bdate b'" by auto
      with halt_count_after_halt[of "st r" d evs p] ev d sorted_tl
      have "halt_count d evs (run p (st r) evs) = 0" by simp
      with Inr True show ?thesis by simp
    next
      case False
      with Inr Cons.IH[OF sorted_tl, of "st r"] show ?thesis by auto
    qed
  qed
qed

lemma ex1: "dispatch default_params long_state (Bar_Event long_broker loss_bar) =
    Inr \<lparr>st = halted_state, instrs = [Close], path = Loss_Limit\<rparr>"
  by (simp add: strategy_defs example_defs)

lemma ex2: "dispatch default_params halted_state (Bar_Event flat_broker next_day_bar) =
    Inr \<lparr>st = long_state\<lparr>current_day := Some 2\<rparr>, instrs = [], path = Managed None\<rparr>"
  by (simp add: strategy_defs example_defs)

text \<open>
  Claim C1.  When a step signals the daily-loss breach (the path \<open>Loss_Limit\<close>), it is a call
  of \<^verbatim>\<open>next\<close> on a bar, it gives the single instruction \<open>Close\<close>, and it leaves the
  strategy halted on that bar's date.  From there, whatever events of the same date
  follow, every one of them returns without an instruction and before the loss check
  (\<open>idle\<close>: no entry, no reversal, no breach evaluation), the flag stays set, and the run
  raises no error.  A step can only clear the flag of a halted strategy when it is a bar
  of another date than \<open>current_day\<close>.  In a stream whose bar dates do not decrease, at
  most one step per date signals the breach.
\<close>

theorem halt_is_sticky:
  "(dispatch p s ev = Inr r \<and> path r = Loss_Limit \<longrightarrow>
      (\<exists>br b. ev = Bar_Event br b \<and> instrs r = [Close] \<and> trading_halted (st r) \<and>
         current_day (st r) = Some (bdate b) \<and>
         (\<forall>evs. (\<forall>e\<in>set evs. same_day (bdate b) e) \<longrightarrow>
            length (run p (st r) evs) = length evs \<and>
            list_all (idle (bdate b)) (run p (st r) evs)))) \<and>
   (trading_halted s' \<and> dispatch p s' ev' = Inr r' \<and> \<not> trading_halted (st r') \<longrightarrow>
      (\<exists>br b. ev' = Bar_Event br b \<and> current_day s' \<noteq> Some (bdate b))) \<and>
   (sorted (map bdate (bars_of evs'')) \<longrightarrow> halt_count d evs'' (run p s'' evs'') \<le> 1)"
proof (intro conjI impI)
  assume a: "dispatch p s ev = Inr r \<and> path r = Loss_Limit"
  then obtain br b where b: "ev = Bar_Event br b" "trading_halted (st r)"
      "current_day (st r) = Some (bdate b)" "instrs r = [Close]"
    using dispatch_loss_limit by blast
  then show "\<exists>br b. ev = Bar_Event br b \<and> instrs r = [Close] \<and> trading_halted (st r) \<and>
         current_day (st r) = Some (bdate b) \<and>
         (\<forall>evs. (\<forall>e\<in>set evs. same_day (bdate b) e) \<longrightarrow>
            length (run p (st r) evs) = length evs \<and>
            list_all (idle (bdate b)) (run p (st r) evs))"
    using run_halted_idle[of "st r" "bdate b" _ p] by blast
next
  assume "trading_halted s' \<and> dispatch p s' ev' = Inr r' \<and> \<not> trading_halted (st r')"
  then show "\<exists>br b. ev' = Bar_Event br b \<and> current_day s' \<noteq> Some (bdate b)"
    using dispatch_unhalt by blast
next
  assume "sorted (map bdate (bars_of evs''))"
  then show "halt_count d evs'' (run p s'' evs'') \<le> 1"
    by (rule halt_count_le_1)
qed

theorem halt_is_sticky_witness:
  "dispatch default_params long_state (Bar_Event long_broker loss_bar) =
     Inr \<lparr>st = halted_state, instrs = [Close], path = Loss_Limit\<rparr> \<and>
   list_all (same_day 1) rest_of_day \<and>
   length (run default_params halted_state rest_of_day) = 3 \<and>
   list_all (idle 1) (run default_params halted_state rest_of_day) \<and>
   trading_halted halted_state \<and>
   \<not> trading_halted (long_state\<lparr>current_day := Some 2\<rparr>) \<and>
   current_day halted_state \<noteq> Some (bdate next_day_bar) \<and>
   sorted (map bdate (bars_of (Bar_Event long_broker loss_bar # rest_of_day))) \<and>
   halt_count 1 (Bar_Event long_broker loss_bar # rest_of_day)
     (run default_params long_state (Bar_Event long_broker loss_bar # rest_of_day)) \<le> 1"
proof -
  let ?r = "\<lparr>st = halted_state, instrs = [Close], path = Loss_Limit\<rparr>"
  let ?r' = "\<lparr>st = long_state\<lparr>current_day := Some 2\<rparr>, instrs = [], path = Managed None\<rparr>"
  have same: "\<forall>e\<in>set rest_of_day. same_day 1 e"
    by (simp add: rest_of_day_def same_day_def mk_bar_def)
  have date: "bdate loss_bar = 1"
    by (simp add: loss_bar_def mk_bar_def)
  have srt: "sorted (map bdate (bars_of (Bar_Event long_broker loss_bar # rest_of_day)))"
    by (simp add: rest_of_day_def loss_bar_def mk_bar_def)
  have h: "trading_halted halted_state" "\<not> trading_halted (long_state\<lparr>current_day := Some 2\<rparr>)"
    by (simp_all add: halted_state_def long_state_def)
  note inst = halt_is_sticky[of default_params long_state "Bar_Event long_broker loss_bar" ?r
      halted_state "Bar_Event flat_broker next_day_bar" ?r'
      "Bar_Event long_broker loss_bar # rest_of_day" 1 long_state]
  from inst ex1 same date have "length (run default_params halted_state rest_of_day) = length rest_of_day \<and>
      list_all (idle 1) (run default_params halted_state rest_of_day)"
    by auto
  moreover from inst ex2 h have "current_day halted_state \<noteq> Some (bdate next_day_bar)"
    by auto
  moreover from inst srt have "halt_count 1 (Bar_Event long_broker loss_bar # rest_of_day)
     (run default_params long_state (Bar_Event long_broker loss_bar # rest_of_day)) \<le> 1"
    by blast
  ultimately show ?thesis using ex1 same srt h by (simp add: rest_of_day_def)
qed

subsection \<open>The steps of \<^verbatim>\<open>next\<close>, case by case\<close>

lemma next_steps:
  "next p s br b a v =
     (let s1 = new_day_logic s br b
      in if trading_halted s1 then Inr \<lparr>st = s1, instrs = [], path = Halted\<rparr>
         else if daily_realized_pnl s1 + unrealized_pnl p br b < - daily_loss_limit p
           then Inr \<lparr>st = s1\<lparr>trading_halted := True\<rparr>, instrs = [Close], path = Loss_Limit\<rparr>
         else if btime b \<ge> market_close then
           Inr \<lparr>st = s1, instrs = (if pos_size br \<noteq> 0 then [Close] else []), path = Market_Close\<rparr>
         else if btime b = first_bar_close then
           Inr \<lparr>st = fst (first_bar p s1 br b), instrs = snd (first_bar p s1 br b), path = First_Bar\<rparr>
         else trade_management p s1 br b a v)"
  by (auto simp: next_def Let_def check_daily_loss_limit_def
      split: prod.splits sum.splits)

lemma new_day_logic_extremes [simp]:
  "highest_high (new_day_logic s br b) = highest_high s"
  "lowest_low (new_day_logic s br b) = lowest_low s"
  by (simp_all add: new_day_logic_def start_of_day_reset_def)







subsection \<open>The reversal operation\<close>

text \<open>
  Claim C2, as amended.  Called while the position is flat, \<^verbatim>\<open>reverse_position\<close> takes the
  \<^verbatim>\<open>else: pass\<close> branch: it returns normally, gives no instruction and leaves the
  state as it was.  The claim asks for a fatal error there; the counterexample below
  evaluates the call.
\<close>

theorem reverse_position_flat_noop:
  "pos_size br = 0 \<Longrightarrow> reverse_position p s br b sg = (s, [])"
  by (simp add: reverse_position_def)

theorem reverse_position_flat_noop_witness:
  "pos_size flat_broker = 0 \<and>
   reverse_position default_params long_state flat_broker falling_bar Trailing_Stop = (long_state, [])"
proof -
  have h: "pos_size flat_broker = 0" by (simp add: flat_broker_def)
  show ?thesis using h reverse_position_flat_noop[OF h] by simp
qed

theorem reverse_position_flat_counterexample:
  "pos_size flat_broker = 0 \<and>
   reverse_position default_params init_state flat_broker falling_bar Volume_Spike_Bearish =
     (init_state, [])"
  by (simp add: reverse_position_def flat_broker_def)

subsection \<open>The trailing stop\<close>






subsection \<open>Indicator warm-up\<close>

lemma dispatch_warming_up:
  "warming_up ev \<Longrightarrow> dispatch p s ev = Inr (prenext s)"
  by (cases ev) (auto simp: warming_up_def dispatch_def split: option.splits)

lemma run_warming_up:
  "list_all warming_up evs \<Longrightarrow> run p s evs = map (\<lambda>ev. Inr (prenext s)) evs"
  by (induction evs) (simp_all add: dispatch_warming_up prenext_def)

text \<open>
  Claim C9.  On a bar for which the ATR or the volume average has no value yet, the
  framework calls the inherited \<^verbatim>\<open>prenext\<close> instead of \<^verbatim>\<open>next\<close>: no instruction is
  given and the strategy state is unchanged.  Over a whole stream of such bars the run
  has one result per bar, none raises an error, and no instruction at all is given to the
  broker, so no position is entered.
\<close>

theorem no_trade_during_warmup:
  "(atr b = None \<or> vol_ma b = None \<longrightarrow>
      dispatch p s (Bar_Event br b) = Inr \<lparr>st = s, instrs = [], path = Prenext\<rparr>) \<and>
   (list_all warming_up evs \<longrightarrow>
      length (run p s' evs) = length evs \<and> list_all no_instr (run p s' evs) \<and>
      concat (map (\<lambda>x. case x of Inl e \<Rightarrow> [] | Inr r \<Rightarrow> instrs r) (run p s' evs)) = [])"
proof (intro conjI impI)
  assume "atr b = None \<or> vol_ma b = None"
  then have "warming_up (Bar_Event br b)" by (simp add: warming_up_def)
  then show "dispatch p s (Bar_Event br b) = Inr \<lparr>st = s, instrs = [], path = Prenext\<rparr>"
    by (simp add: dispatch_warming_up prenext_def)
next
  assume a: "list_all warming_up evs"
  then show "length (run p s' evs) = length evs" by (simp add: run_warming_up)
  from a show "list_all no_instr (run p s' evs)"
    by (simp add: run_warming_up list_all_iff no_instr_def prenext_def)
  from a show "concat (map (\<lambda>x. case x of Inl e \<Rightarrow> [] | Inr r \<Rightarrow> instrs r) (run p s' evs)) = []"
    by (simp add: run_warming_up prenext_def)
qed

theorem no_trade_during_warmup_witness:
  "vol_ma half_warm_bar = None \<and>
   dispatch default_params init_state (Bar_Event flat_broker half_warm_bar) =
     Inr \<lparr>st = init_state, instrs = [], path = Prenext\<rparr> \<and>
   list_all warming_up [Bar_Event flat_broker warmup_bar, Bar_Event flat_broker half_warm_bar] \<and>
   list_all no_instr (run default_params init_state
     [Bar_Event flat_broker warmup_bar, Bar_Event flat_broker half_warm_bar])"
proof -
  have h1: "vol_ma half_warm_bar = None" by (simp add: half_warm_bar_def)
  have h2: "list_all warming_up [Bar_Event flat_broker warmup_bar, Bar_Event flat_broker half_warm_bar]"
    by (simp add: warming_up_def half_warm_bar_def warmup_bar_def)
  show ?thesis
    using no_trade_during_warmup[of half_warm_bar default_params init_state flat_broker
        "[Bar_Event flat_broker warmup_bar, Bar_Event flat_broker half_warm_bar]" init_state] h1 h2
    by simp
qed

subsection \<open>Reversals\<close>








subsection \<open>Entries\<close>

lemma next_opens_iff:
  "next p s br b a v = Inr r \<Longrightarrow> opens (instrs r) \<longleftrightarrow> path r = First_Bar \<and> pos_size br = 0"
  by (auto simp: next_steps Let_def first_bar_def trade_management_def
      update_extremes_def trailing_reversal_def volume_reversal_def reverse_position_def
      split: if_splits option.splits)

lemma next_first_bar_iff:
  "next p s br b a v = Inr r \<Longrightarrow> path r = First_Bar \<longleftrightarrow> reaches_first_bar p s br b"
  using first_bar_before_close
  by (auto simp: next_steps reaches_first_bar_def Let_def trade_management_def
      split: if_splits sum.splits prod.splits)

lemma next_first_bar_result:
  "reaches_first_bar p s br b \<Longrightarrow>
   next p s br b a v =
     Inr \<lparr>st = fst (first_bar p (new_day_logic s br b) br b),
          instrs = snd (first_bar p (new_day_logic s br b) br b), path = First_Bar\<rparr>"
  using first_bar_before_close
  by (auto simp: next_steps reaches_first_bar_def Let_def)

lemma dispatch_entry_time:
  "dispatch p s ev = Inr r \<Longrightarrow> opens (instrs r) \<Longrightarrow>
   \<exists>br b. ev = Bar_Event br b \<and> btime b = first_bar_close"
  by (cases ev)
     (auto simp: dispatch_def prenext_def next_opens_iff next_first_bar_iff reaches_first_bar_def
       split: option.splits)

lemma entry_count_Nil [simp]: "entry_count d [] xs = 0" "entry_count d evs [] = 0"
  by (simp_all add: entry_count_def)

lemma entry_count_Cons [simp]:
  "entry_count d (ev # evs) (x # xs) =
     (if on_day d ev \<and> is_entry x then 1 else 0) + entry_count d evs xs"
  by (simp add: entry_count_def)

lemma entry_count_no_first_bar:
  "\<forall>b\<in>set (bars_of evs). \<not> (bdate b = d \<and> btime b = first_bar_close) \<Longrightarrow>
   entry_count d evs (run p s evs) = 0"
proof (induction evs arbitrary: s)
  case Nil
  then show ?case by simp
next
  case (Cons ev evs)
  show ?case
  proof (cases "dispatch p s ev")
    case (Inl e)
    then show ?thesis by (simp add: is_entry_def)
  next
    case (Inr r)
    have "\<not> (on_day d ev \<and> is_entry (Inr r))"
    proof
      assume a: "on_day d ev \<and> is_entry (Inr r)"
      then obtain br b where "ev = Bar_Event br b" "btime b = first_bar_close"
        using dispatch_entry_time[OF Inr] by (auto simp: is_entry_def)
      with a Cons.prems show False by (auto simp: on_day_def)
    qed
    moreover from Cons.prems have "\<forall>b\<in>set (bars_of evs). \<not> (bdate b = d \<and> btime b = first_bar_close)"
      by (cases ev) auto
    ultimately show ?thesis using Inr Cons.IH[of "st r"] by simp
  qed
qed

lemma entry_count_le_1:
  "sorted_wrt ts_before (bars_of evs) \<Longrightarrow> entry_count d evs (run p s evs) \<le> 1"
proof (induction evs arbitrary: s)
  case Nil
  then show ?case by simp
next
  case (Cons ev evs)
  from Cons.prems have sorted_tl: "sorted_wrt ts_before (bars_of evs)"
    by (cases ev) simp_all
  show ?case
  proof (cases "dispatch p s ev")
    case (Inl e)
    then show ?thesis by (simp add: is_entry_def)
  next
    case (Inr r)
    show ?thesis
    proof (cases "on_day d ev \<and> is_entry (Inr r)")
      case True
      then obtain br b where ev: "ev = Bar_Event br b" "btime b = first_bar_close"
        using dispatch_entry_time[OF Inr] by (auto simp: is_entry_def)
      with True have d: "bdate b = d" by (simp add: on_day_def)
      have later: "\<forall>b'\<in>set (bars_of evs). ts_before b b'"
        using Cons.prems unfolding ev(1) by simp
      have "\<forall>b'\<in>set (bars_of evs). \<not> (bdate b' = d \<and> btime b' = first_bar_close)"
      proof
        fix b' assume "b' \<in> set (bars_of evs)"
        with later have "bdate b < bdate b' \<or> (bdate b = bdate b' \<and> btime b < btime b')"
          by (simp add: ts_before_def)
        then show "\<not> (bdate b' = d \<and> btime b' = first_bar_close)"
          unfolding ev(2) d by linarith
      qed
      then have "entry_count d evs (run p (st r) evs) = 0"
        by (rule entry_count_no_first_bar)
      with Inr True show ?thesis by simp
    next
      case False
      with Inr Cons.IH[OF sorted_tl, of "st r"] show ?thesis by auto
    qed
  qed
qed

text \<open>
  Claim C5.  A call of \<^verbatim>\<open>next\<close> that returns gives an entry (a single opening order with
  no \<open>Close\<close> before it) exactly when it reaches step 3 (not halted, no loss breach, bar
  time equal to \<open>first_bar_close\<close>) with a flat position.  Then the bar time is 09:35, the
  strategy is not halted, and the order is \<open>Buy fixed_size\<close> with the highest high set to
  the bar's high if close > open, and \<open>Sell fixed_size\<close> with the lowest low set to the
  bar's low otherwise.  In a stream of bars with strictly increasing timestamps, at most
  one step per date gives an entry.
\<close>

theorem entry_only_on_first_bar:
  "(next p s br b atr0 vol_ma0 = Inr r \<longrightarrow>
      (opens (instrs r) \<longleftrightarrow> reaches_first_bar p s br b \<and> pos_size br = 0) \<and>
      (opens (instrs r) \<longrightarrow>
         btime b = time 9 35 \<and> \<not> trading_halted (st r) \<and>
         (if bclose b > bopen b
          then instrs r = [Buy (fixed_size p)] \<and> highest_high (st r) = Some (bhigh b)
          else instrs r = [Sell (fixed_size p)] \<and> lowest_low (st r) = Some (blow b)))) \<and>
   (sorted_wrt ts_before (bars_of evs) \<longrightarrow> entry_count d evs (run p s' evs) \<le> 1)"
proof (intro conjI impI)
  assume a: "next p s br b atr0 vol_ma0 = Inr r"
  show "opens (instrs r) \<longleftrightarrow> reaches_first_bar p s br b \<and> pos_size br = 0"
    using next_opens_iff[OF a] next_first_bar_iff[OF a] by simp
next
  assume a: "next p s br b atr0 vol_ma0 = Inr r" and o: "opens (instrs r)"
  then have fb: "reaches_first_bar p s br b" and flat: "pos_size br = 0"
    using next_opens_iff[OF a] next_first_bar_iff[OF a] by simp_all
  from fb show "btime b = time 9 35"
    by (simp add: reaches_first_bar_def first_bar_close_eq)
  from a fb have r: "r = \<lparr>st = fst (first_bar p (new_day_logic s br b) br b),
      instrs = snd (first_bar p (new_day_logic s br b) br b), path = First_Bar\<rparr>"
    by (simp add: next_first_bar_result)
  from fb show "\<not> trading_halted (st r)"
    unfolding r by (simp add: reaches_first_bar_def first_bar_def)
  from flat show "if bclose b > bopen b
      then instrs r = [Buy (fixed_size p)] \<and> highest_high (st r) = Some (bhigh b)
      else instrs r = [Sell (fixed_size p)] \<and> lowest_low (st r) = Some (blow b)"
    unfolding r by (simp add: first_bar_def)
next
  assume "sorted_wrt ts_before (bars_of evs)"
  then show "entry_count d evs (run p s' evs) \<le> 1"
    by (rule entry_count_le_1)
qed

lemma ex_entry: "next default_params init_state flat_broker entry_bar 10 1000 =
    Inr \<lparr>st = long_state, instrs = [Buy 1], path = First_Bar\<rparr>"
  by (simp add: strategy_defs example_defs entry_bar_def init_state_def)

lemma ex_two_days_sorted: "sorted_wrt ts_before (bars_of two_days)"
  by (simp add: two_days_def ts_before_def entry_bar_def down_entry_bar_def mk_bar_def time_def)

theorem entry_only_on_first_bar_witness:
  "next default_params init_state flat_broker entry_bar 10 1000 =
     Inr \<lparr>st = long_state, instrs = [Buy 1], path = First_Bar\<rparr> \<and>
   opens [Buy 1] \<and> reaches_first_bar default_params init_state flat_broker entry_bar \<and>
   pos_size flat_broker = 0 \<and> btime entry_bar = time 9 35 \<and>
   bclose entry_bar > bopen entry_bar \<and> highest_high long_state = Some (bhigh entry_bar) \<and>
   sorted_wrt ts_before (bars_of two_days) \<and>
   entry_count 1 two_days (run default_params init_state two_days) \<le> 1"
proof -
  let ?r = "\<lparr>st = long_state, instrs = [Buy 1], path = First_Bar\<rparr>"
  have v: "bclose entry_bar > bopen entry_bar"
    by (simp add: entry_bar_def mk_bar_def)
  show ?thesis
    using entry_only_on_first_bar[of default_params init_state flat_broker entry_bar 10 1000 ?r
        two_days 1 init_state] ex_entry ex_two_days_sorted v
    by simp
qed

lemma ex_two_days_count: "entry_count 1 two_days (run default_params init_state two_days) = 1"
  "entry_count 2 two_days (run default_params init_state two_days) = 1"
  by (simp_all add: two_days_def strategy_defs example_defs entry_bar_def down_entry_bar_def init_state_def
     on_day_def is_entry_def)

section \<open>Properties of the Monte Carlo analysis\<close>

subsection \<open>Daily aggregation\<close>






lemma set_first_seen [simp]: "set (first_seen ks) = set ks"
  by (simp add: first_seen_def)

lemma distinct_first_seen [simp]: "distinct (first_seen ks)"
  by (simp add: first_seen_def)







lemma ex_aggregate: "aggregate day_floor [] three_trades = Inr [(1, 17), (2, - 5)]"
  by (simp add: three_trades_def mk_trade_def day_floor_def add_trade_def dict_get_def Let_def)


subsection \<open>Drawing with replacement\<close>

lemma getitem_in_range:
  "0 \<le> i \<Longrightarrow> i < int (length xs) \<Longrightarrow> getitem xs i = Inr (xs ! nat i)"
  by (simp add: getitem_def)

lemma getitem_member: "getitem xs i = Inr x \<Longrightarrow> x \<in> set xs"
  by (auto simp: getitem_def Let_def split: if_splits)

lemma floor_index:
  assumes "0 \<le> u" "u < 1" "0 < n"
  shows "0 \<le> \<lfloor>u * real n\<rfloor>" "\<lfloor>u * real n\<rfloor> < int n"
proof -
  from assms show "0 \<le> \<lfloor>u * real n\<rfloor>" by simp
  from assms have "u * real n < 1 * real n"
    by (intro mult_strict_right_mono) simp_all
  then show "\<lfloor>u * real n\<rfloor> < int n"
    by (simp add: floor_less_iff)
qed


lemma choices_member: "choices random pos population k = Inr xs \<Longrightarrow> set xs \<subseteq> set population"
proof (induction k arbitrary: pos xs)
  case 0
  then show ?case by simp
next
  case (Suc k)
  from Suc.prems obtain x xs' where x: "getitem population \<lfloor>random pos * real (length population)\<rfloor> = Inr x"
      and xs': "choices random (Suc pos) population k = Inr xs'" and xs: "xs = x # xs'"
    by (auto split: sum.splits)
  from x have "x \<in> set population" by (rule getitem_member)
  moreover from xs' have "set xs' \<subseteq> set population" by (rule Suc.IH)
  ultimately show ?case by (simp add: xs)
qed

lemma choices_length: "choices random pos population k = Inr xs \<Longrightarrow> length xs = k"
  by (induction k arbitrary: pos xs) (auto split: sum.splits)

lemma choices_draws:
  assumes "\<forall>i. 0 \<le> random i \<and> random i < 1" "k = 0 \<or> population \<noteq> []"
  shows "\<exists>xs. choices random pos population k = Inr xs \<and> length xs = k \<and>
     (\<forall>j<k. xs ! j = population ! nat \<lfloor>random (pos + j) * real (length population)\<rfloor>)"
  using assms(2)
proof (induction k arbitrary: pos)
  case 0
  then show ?case by simp
next
  case (Suc k)
  then have ne: "0 < length population" by simp
  let ?i = "\<lfloor>random pos * real (length population)\<rfloor>"
  have "0 \<le> ?i" "?i < int (length population)"
    using floor_index[of "random pos" "length population"] assms(1) ne by simp_all
  then have g: "getitem population ?i = Inr (population ! nat ?i)"
    by (rule getitem_in_range)
  from Suc.IH[of "Suc pos"] ne obtain xs where xs: "choices random (Suc pos) population k = Inr xs"
      "length xs = k"
      "\<forall>j<k. xs ! j = population ! nat \<lfloor>random (Suc pos + j) * real (length population)\<rfloor>"
    by auto
  have "\<forall>j<Suc k. (population ! nat ?i # xs) ! j =
      population ! nat \<lfloor>random (pos + j) * real (length population)\<rfloor>"
  proof (intro allI impI)
    fix j assume "j < Suc k"
    then show "(population ! nat ?i # xs) ! j =
        population ! nat \<lfloor>random (pos + j) * real (length population)\<rfloor>"
      using xs(3) by (cases j) simp_all
  qed
  with g xs show ?case by simp
qed

subsection \<open>The equity walk\<close>

lemma walk_path:
  "walk daily_seq equity pk dd = Inr (equity', pk', dd') \<Longrightarrow> equity \<noteq> [] \<Longrightarrow>
   length equity' = length equity + length daily_seq \<and>
   last equity' = last equity + sum_list daily_seq \<and>
   hd equity' = hd equity"
proof (induction daily_seq arbitrary: equity pk dd)
  case Nil
  then show ?case by simp
next
  case (Cons pnl daily_seq)
  let ?nv = "last equity + pnl"
  let ?pk = "if ?nv > pk then ?nv else pk"
  let ?d = "(?pk - ?nv) / ?pk"
  from Cons.prems(1) have w: "walk daily_seq (equity @ [?nv]) ?pk (if ?d > dd then ?d else dd) =
      Inr (equity', pk', dd')"
    by (simp add: Let_def split: if_splits)
  from Cons.IH[OF w] Cons.prems(2) show ?case by simp
qed

lemma walk_returns:
  "0 < pk \<Longrightarrow> \<exists>r. walk daily_seq equity pk dd = Inr r"
proof (induction daily_seq arbitrary: equity pk dd)
  case Nil
  then show ?case by simp
next
  case (Cons pnl daily_seq)
  let ?nv = "last equity + pnl"
  let ?pk = "if ?nv > pk then ?nv else pk"
  from Cons.prems have "0 < ?pk" by simp
  from Cons.IH[OF this] Cons.prems show ?case by (simp add: Let_def)
qed

lemma running_peak_append:
  "i < length equity \<Longrightarrow> running_peak (equity @ [x]) i = running_peak equity i"
  by (simp add: running_peak_def)

lemma drawdown_at_append:
  "i < length equity \<Longrightarrow> drawdown_at (equity @ [x]) i = drawdown_at equity i"
  by (simp add: drawdown_at_def running_peak_append nth_append)

lemma running_peak_last:
  "equity \<noteq> [] \<Longrightarrow>
   running_peak (equity @ [x]) (length equity) = max x (Max (set equity))"
  by (simp add: running_peak_def)

lemma spec_max_drawdown_image:
  "spec_max_drawdown equity = Max (drawdown_at equity ` {..<length equity})"
  by (simp add: spec_max_drawdown_def atLeast0LessThan)

lemma spec_max_drawdown_single: "spec_max_drawdown [x] = 0"
  by (simp add: spec_max_drawdown_image drawdown_at_def running_peak_def lessThan_Suc)

lemma spec_max_drawdown_append:
  assumes "equity \<noteq> []"
  shows "spec_max_drawdown (equity @ [x]) =
     max (drawdown_at (equity @ [x]) (length equity)) (spec_max_drawdown equity)"
proof -
  have "drawdown_at (equity @ [x]) ` {..<length equity} = drawdown_at equity ` {..<length equity}"
    by (intro image_cong) (simp_all add: drawdown_at_append)
  moreover from assms have "drawdown_at equity ` {..<length equity} \<noteq> {}"
    by (simp add: lessThan_empty_iff)
  ultimately show ?thesis
    by (simp add: spec_max_drawdown_image lessThan_Suc)
qed

lemma walk_drawdown:
  "walk daily_seq equity pk dd = Inr (equity', pk', dd') \<Longrightarrow> equity \<noteq> [] \<Longrightarrow>
   pk = Max (set equity) \<Longrightarrow> dd = spec_max_drawdown equity \<Longrightarrow>
   pk' = Max (set equity') \<and> dd' = spec_max_drawdown equity'"
proof (induction daily_seq arbitrary: equity pk dd)
  case Nil
  then show ?case by auto
next
  case (Cons pnl daily_seq)
  let ?nv = "last equity + pnl"
  let ?pk = "if ?nv > pk then ?nv else pk"
  let ?d = "(?pk - ?nv) / ?pk"
  let ?dd = "if ?d > dd then ?d else dd"
  from Cons.prems(1) have w: "walk daily_seq (equity @ [?nv]) ?pk ?dd = Inr (equity', pk', dd')"
    by (simp add: Let_def split: if_splits)
  have ins: "Max (insert ?nv (set equity)) = max ?nv (Max (set equity))"
    using Cons.prems(2) by (intro Max_insert) simp_all
  have "?pk = max ?nv pk" by (simp add: max_def)
  also have "\<dots> = max ?nv (Max (set equity))" by (simp only: Cons.prems(3))
  finally have pk_max: "?pk = max ?nv (Max (set equity))" .
  then have pk: "?pk = Max (set (equity @ [?nv]))"
    by (simp only: ins set_append list.set Un_insert_right Un_empty_right)
  have "running_peak (equity @ [?nv]) (length equity) = ?pk"
    by (simp only: running_peak_last[OF Cons.prems(2)] pk_max)
  then have d: "drawdown_at (equity @ [?nv]) (length equity) = ?d"
    by (simp only: drawdown_at_def nth_append_length)
  have "?dd = max ?d dd" by (simp add: max_def)
  then have dd: "?dd = spec_max_drawdown (equity @ [?nv])"
    by (simp only: spec_max_drawdown_append[OF Cons.prems(2)] d Cons.prems(4))
  from Cons.IH[OF w _ pk dd] show ?case by simp
qed

lemma walk_drawdown_mono:
  "walk daily_seq equity pk dd = Inr (equity', pk', dd') \<Longrightarrow> dd \<le> dd'"
proof (induction daily_seq arbitrary: equity pk dd)
  case Nil
  then show ?case by simp
next
  case (Cons pnl daily_seq)
  let ?nv = "last equity + pnl"
  let ?pk = "if ?nv > pk then ?nv else pk"
  let ?d = "(?pk - ?nv) / ?pk"
  let ?dd = "if ?d > dd then ?d else dd"
  from Cons.prems(1) have w: "walk daily_seq (equity @ [?nv]) ?pk ?dd = Inr (equity', pk', dd')"
    by (simp add: Let_def split: if_splits)
  have "dd \<le> ?dd" by simp
  with Cons.IH[OF w] show ?case by linarith
qed

lemma sorted_running_peak:
  assumes "sorted equity" "i < length equity"
  shows "running_peak equity i = equity ! i"
  unfolding running_peak_def
proof (rule Max_eqI)
  show "finite (set (take (Suc i) equity))" by simp
  show "equity ! i \<in> set (take (Suc i) equity)"
    using assms(2) by (auto simp: in_set_conv_nth intro!: exI[of _ i])
  fix y assume "y \<in> set (take (Suc i) equity)"
  then obtain j where "j < Suc i" "j < length equity" "y = equity ! j"
    by (auto simp: in_set_conv_nth)
  with assms show "y \<le> equity ! i"
    by (simp add: sorted_nth_mono)
qed

lemma sorted_no_drawdown:
  assumes "sorted equity" "equity \<noteq> []"
  shows "spec_max_drawdown equity = 0"
proof -
  have "drawdown_at equity ` {..<length equity} = (\<lambda>i. 0) ` {..<length equity}"
    by (intro image_cong) (simp_all add: drawdown_at_def sorted_running_peak[OF assms(1)])
  also from assms(2) have "\<dots> = {0}" by auto
  finally show ?thesis
    by (simp add: spec_max_drawdown_image)
qed

lemma walk_sorted:
  "walk daily_seq equity pk dd = Inr (equity', pk', dd') \<Longrightarrow> equity \<noteq> [] \<Longrightarrow>
   sorted equity \<Longrightarrow> \<forall>x\<in>set daily_seq. 0 \<le> x \<Longrightarrow> sorted equity'"
proof (induction daily_seq arbitrary: equity pk dd)
  case Nil
  then show ?case by simp
next
  case (Cons pnl daily_seq)
  let ?nv = "last equity + pnl"
  let ?pk = "if ?nv > pk then ?nv else pk"
  let ?d = "(?pk - ?nv) / ?pk"
  let ?dd = "if ?d > dd then ?d else dd"
  from Cons.prems(1) have w: "walk daily_seq (equity @ [?nv]) ?pk ?dd = Inr (equity', pk', dd')"
    by (simp add: Let_def split: if_splits)
  have "\<forall>y\<in>set equity. y \<le> last equity"
  proof
    fix y assume "y \<in> set equity"
    then obtain j where "j < length equity" "y = equity ! j"
      by (auto simp: in_set_conv_nth)
    with Cons.prems(2,3) show "y \<le> last equity"
      by (simp add: last_conv_nth sorted_nth_mono)
  qed
  with Cons.prems have "sorted (equity @ [?nv])"
    by (auto simp: sorted_append intro: order_trans)
  from Cons.IH[OF w _ this] Cons.prems(4) show ?case by simp
qed

subsection \<open>Trials and simulations\<close>

lemma run_trial_path:
  assumes "run_trial starting_equity daily_seq = Inr t"
  shows "length (curve t) = length daily_seq + 1" "hd (curve t) = starting_equity"
    "final_equity t = last (curve t)" "final_equity t = starting_equity + sum_list daily_seq"
    "curve t \<noteq> []"
proof -
  from assms obtain equity pk dd where
    w: "walk daily_seq [starting_equity] starting_equity 0 = Inr (equity, pk, dd)"
    and t: "t = \<lparr>final_equity = last equity, max_drawdown = dd * 100, curve = equity\<rparr>"
    by (auto simp: run_trial_def split: sum.splits)
  from walk_path[OF w] show "length (curve t) = length daily_seq + 1"
    "hd (curve t) = starting_equity" "final_equity t = starting_equity + sum_list daily_seq"
    by (simp_all add: t)
  then show "curve t \<noteq> []" by auto
  show "final_equity t = last (curve t)" by (simp add: t)
qed

lemma run_trial_drawdown:
  assumes "run_trial starting_equity daily_seq = Inr t"
  shows "max_drawdown t = spec_max_drawdown (curve t) * 100" "0 \<le> max_drawdown t"
proof -
  from assms obtain equity pk dd where
    w: "walk daily_seq [starting_equity] starting_equity 0 = Inr (equity, pk, dd)"
    and t: "t = \<lparr>final_equity = last equity, max_drawdown = dd * 100, curve = equity\<rparr>"
    by (auto simp: run_trial_def split: sum.splits)
  from walk_drawdown[OF w] show "max_drawdown t = spec_max_drawdown (curve t) * 100"
    by (simp add: t spec_max_drawdown_single)
  from walk_drawdown_mono[OF w] show "0 \<le> max_drawdown t"
    by (simp add: t)
qed

lemma run_trial_gains:
  assumes "run_trial starting_equity daily_seq = Inr t" "\<forall>x\<in>set daily_seq. 0 \<le> x"
  shows "sorted (curve t)"
proof -
  from assms obtain equity pk dd where
    w: "walk daily_seq [starting_equity] starting_equity 0 = Inr (equity, pk, dd)"
    and t: "t = \<lparr>final_equity = last equity, max_drawdown = dd * 100, curve = equity\<rparr>"
    by (auto simp: run_trial_def split: sum.splits)
  from walk_sorted[OF w] assms(2) show ?thesis by (simp add: t)
qed

lemma run_trial_returns:
  "0 < starting_equity \<Longrightarrow> \<exists>t. run_trial starting_equity daily_seq = Inr t"
  using walk_returns[of starting_equity daily_seq "[starting_equity]" 0]
  by (auto simp: run_trial_def)

lemma simulations_trials:
  "simulations random pos pnl_sequence starting_equity n = Inr ts \<Longrightarrow>
   length ts = n \<and>
   (\<forall>i<n. \<exists>daily_seq.
      choices random (pos + i * length pnl_sequence) pnl_sequence (length pnl_sequence) =
        Inr daily_seq \<and>
      run_trial starting_equity daily_seq = Inr (ts ! i))"
proof (induction n arbitrary: pos ts)
  case 0
  then show ?case by simp
next
  case (Suc n)
  let ?days = "length pnl_sequence"
  from Suc.prems obtain daily_seq t ts' where
    c: "choices random pos pnl_sequence ?days = Inr daily_seq"
    and r: "run_trial starting_equity daily_seq = Inr t"
    and s: "simulations random (pos + ?days) pnl_sequence starting_equity n = Inr ts'"
    and ts: "ts = t # ts'"
    by (auto simp: Let_def split: sum.splits)
  from Suc.IH[OF s] have len: "length ts' = n"
    and rest: "\<forall>i<n. \<exists>daily_seq.
      choices random (pos + ?days + i * ?days) pnl_sequence ?days = Inr daily_seq \<and>
      run_trial starting_equity daily_seq = Inr (ts' ! i)"
    by simp_all
  have "\<exists>daily_seq.
      choices random (pos + i * ?days) pnl_sequence ?days = Inr daily_seq \<and>
      run_trial starting_equity daily_seq = Inr (ts ! i)" if "i < Suc n" for i
  proof (cases i)
    case 0
    with c r ts show ?thesis by simp
  next
    case (Suc j)
    with that rest have "\<exists>daily_seq.
      choices random (pos + ?days + j * ?days) pnl_sequence ?days = Inr daily_seq \<and>
      run_trial starting_equity daily_seq = Inr (ts' ! j)"
      by simp
    then show ?thesis by (simp add: Suc ts add.assoc)
  qed
  with len ts show ?case by simp
qed

lemma simulations_returns:
  assumes "unit_interval random" "0 < starting_equity"
  shows "\<exists>ts. simulations random pos pnl_sequence starting_equity n = Inr ts"
proof (induction n arbitrary: pos)
  case 0
  then show ?case by simp
next
  case (Suc n)
  let ?days = "length pnl_sequence"
  from assms(1) have "\<forall>i. 0 \<le> random i \<and> random i < 1" by (simp add: unit_interval_def)
  then obtain daily_seq where c: "choices random pos pnl_sequence ?days = Inr daily_seq"
    using choices_draws[of random ?days pnl_sequence pos] by auto
  obtain t where r: "run_trial starting_equity daily_seq = Inr t"
    using run_trial_returns[OF assms(2)] by blast
  from Suc.IH[of "pos + ?days"] obtain ts where
    "simulations random (pos + ?days) pnl_sequence starting_equity n = Inr ts" by blast
  with c r show ?case by (simp add: Let_def)
qed

lemma simulations_empty:
  "simulations random pos [] starting_equity n =
     Inr (replicate n \<lparr>final_equity = starting_equity, max_drawdown = 0, curve = [starting_equity]\<rparr>)"
  by (induction n arbitrary: pos) (simp_all add: run_trial_def)

lemma simulations_each:
  assumes "simulations random pos pnl_sequence starting_equity n = Inr ts" "t \<in> set ts"
  shows "\<exists>daily_seq. set daily_seq \<subseteq> set pnl_sequence \<and>
     length daily_seq = length pnl_sequence \<and> run_trial starting_equity daily_seq = Inr t"
proof -
  from assms(2) obtain i where i: "i < length ts" "t = ts ! i"
    by (auto simp: in_set_conv_nth)
  with simulations_trials[OF assms(1)] obtain daily_seq where
    c: "choices random (pos + i * length pnl_sequence) pnl_sequence (length pnl_sequence) = Inr daily_seq"
    and r: "run_trial starting_equity daily_seq = Inr t"
    by auto
  from choices_member[OF c] choices_length[OF c] r show ?thesis by blast
qed




text \<open>
  Claim C4.  For every trial that returns, the reported maximum drawdown is 100 times the
  maximum over the equity path of (running peak - equity) / running peak, it is not
  negative, and it is zero when the path never decreases.  A trial returns whenever the
  starting equity is positive.  The same holds for every trial of a simulation; and for
  the daily sequence [100, 100, 100] and starting equity 5000 every trial of every
  simulation has maximum drawdown 0.
\<close>
theorem max_drawdown_of_trials:
  "(run_trial starting_equity daily_seq = Inr t \<longrightarrow>
      max_drawdown t = spec_max_drawdown (curve t) * 100 \<and> 0 \<le> max_drawdown t \<and>
      (sorted (curve t) \<longrightarrow> max_drawdown t = 0)) \<and>
   (0 < starting_equity \<longrightarrow> (\<exists>t. run_trial starting_equity daily_seq = Inr t)) \<and>
   (run_simulations random pnl_sequence num_trials starting_equity = Inr ts \<longrightarrow>
      (\<forall>t\<in>set ts.
         max_drawdown t = spec_max_drawdown (curve t) * 100 \<and> 0 \<le> max_drawdown t \<and>
         (sorted (curve t) \<longrightarrow> max_drawdown t = 0))) \<and>
   (unit_interval random \<longrightarrow>
      (\<exists>ts. run_simulations random [100, 100, 100] num_trials 5000 = Inr ts \<and>
         length ts = nat num_trials \<and> (\<forall>t\<in>set ts. max_drawdown t = 0)))"
proof -
  have trial: "max_drawdown t = spec_max_drawdown (curve t) * 100 \<and> 0 \<le> max_drawdown t \<and>
      (sorted (curve t) \<longrightarrow> max_drawdown t = 0)"
    if "run_trial start ds = Inr t" for start ds t
    using run_trial_drawdown[OF that] run_trial_path(5)[OF that]
    by (simp add: sorted_no_drawdown)
  have sims: "\<forall>t\<in>set ts.
         max_drawdown t = spec_max_drawdown (curve t) * 100 \<and> 0 \<le> max_drawdown t \<and>
         (sorted (curve t) \<longrightarrow> max_drawdown t = 0)"
    if "run_simulations random pnl_sequence num_trials starting_equity = Inr ts"
  proof
    fix t assume "t \<in> set ts"
    with that obtain ds where "run_trial starting_equity ds = Inr t"
      using simulations_each[of random 0 pnl_sequence starting_equity "nat num_trials" ts t]
      by (auto simp: run_simulations_def)
    then show "max_drawdown t = spec_max_drawdown (curve t) * 100 \<and> 0 \<le> max_drawdown t \<and>
         (sorted (curve t) \<longrightarrow> max_drawdown t = 0)"
      by (rule trial)
  qed
  have gains: "\<exists>ts. run_simulations random [100, 100, 100] num_trials 5000 = Inr ts \<and>
         length ts = nat num_trials \<and> (\<forall>t\<in>set ts. max_drawdown t = 0)"
    if "unit_interval random"
  proof -
    from that obtain ts where
      s: "simulations random 0 [100, 100, 100] 5000 (nat num_trials) = Inr ts"
      using simulations_returns[of random 5000 0 "[100, 100, 100]" "nat num_trials"] by auto
    have "\<forall>t\<in>set ts. max_drawdown t = 0"
    proof
      fix t assume "t \<in> set ts"
      with simulations_each[OF s] obtain ds where
        ds: "set ds \<subseteq> set [100, 100, 100::real]" "run_trial 5000 ds = Inr t"
        by blast
      then have "\<forall>x\<in>set ds. 0 \<le> x" by auto
      with ds have "sorted (curve t)" by (intro run_trial_gains)
      with trial[OF ds(2)] show "max_drawdown t = 0" by simp
    qed
    with s simulations_trials[OF s] show ?thesis
      by (simp add: run_simulations_def)
  qed
  from trial sims gains run_trial_returns[of starting_equity daily_seq] show ?thesis
    by blast
qed

lemma ex_trial: "run_trial 5000 [100, - 200, 50] =
    Inr \<lparr>final_equity = 4950, max_drawdown = 200 / 51, curve = [5000, 5100, 4900, 4950]\<rparr>"
  by (simp add: run_trial_def Let_def)

lemma ex_gains: "run_simulations half_random [100, 100, 100] 1 5000 =
    Inr [\<lparr>final_equity = 5300, max_drawdown = 0, curve = [5000, 5100, 5200, 5300]\<rparr>]"
  by (simp add: run_simulations_def run_trial_def half_random_def getitem_def Let_def)

theorem max_drawdown_of_trials_witness:
  "run_trial 5000 [100, 100, 100] =
     Inr \<lparr>final_equity = 5300, max_drawdown = 0, curve = [5000, 5100, 5200, 5300]\<rparr> \<and>
   sorted [5000, 5100, 5200, 5300::real] \<and>
   spec_max_drawdown [5000, 5100, 5200, 5300] * 100 = 0 \<and>
   (0::real) < 5000 \<and>
   run_simulations half_random [100, 100, 100] 1 5000 =
     Inr [\<lparr>final_equity = 5300, max_drawdown = 0, curve = [5000, 5100, 5200, 5300]\<rparr>] \<and>
   unit_interval half_random \<and>
   run_trial 5000 [100, - 200, 50] =
     Inr \<lparr>final_equity = 4950, max_drawdown = 200 / 51, curve = [5000, 5100, 4900, 4950]\<rparr> \<and>
   spec_max_drawdown [5000, 5100, 4900, 4950] * 100 = 200 / 51"
proof -
  let ?t = "\<lparr>final_equity = 5300, max_drawdown = 0, curve = [5000, 5100, 5200, 5300]\<rparr>"
  let ?t' = "\<lparr>final_equity = 4950, max_drawdown = 200 / 51, curve = [5000, 5100, 4900, 4950]\<rparr>"
  have e: "run_trial 5000 [100, 100, 100] = Inr ?t"
    by (simp add: run_trial_def Let_def)
  have h: "unit_interval half_random" by (simp add: unit_interval_def half_random_def)
  from max_drawdown_of_trials[of 5000 "[100, 100, 100]" ?t half_random "[100, 100, 100]" 1 "[?t]"] e
  have "spec_max_drawdown [5000, 5100, 5200, 5300] * 100 = 0" by simp
  moreover
  from max_drawdown_of_trials[of 5000 "[100, - 200, 50]" ?t' half_random "[100, 100, 100]" 1 "[?t]"]
    ex_trial
  have "spec_max_drawdown [5000, 5100, 4900, 4950] * 100 = 200 / 51" by simp
  ultimately show ?thesis using e h ex_gains ex_trial by simp
qed

text \<open>
  Claim C8, as amended.  For a daily sequence of length zero the loop raises no error: it
  returns every trial (1000 with the constants of the module), each with the equity path
  that holds only the starting equity, that value as final equity, and maximum drawdown
  0.  An empty trade list gives the empty sequence without an error.  For a number of
  trials that is zero or negative the loop returns no trial and no error.  The claim
  asks for a descriptive error in these cases; the counterexample below evaluates the
  module's loop on the empty sequence.
\<close>
theorem empty_sequence_not_rejected:
  "run_simulations random [] num_trials starting_equity =
     Inr (replicate (nat num_trials)
       \<lparr>final_equity = starting_equity, max_drawdown = 0, curve = [starting_equity]\<rparr>) \<and>
   monte_carlo random [] =
     Inr (replicate 1000 \<lparr>final_equity = 5000, max_drawdown = 0, curve = [5000]\<rparr>) \<and>
   pnl_sequence_of num2date [] = Inr [] \<and>
   (num_trials \<le> 0 \<longrightarrow>
      run_simulations random pnl_sequence num_trials starting_equity = Inr [])"
  by (simp add: run_simulations_def monte_carlo_def SIMULATIONS_def STARTING_EQUITY_def
      simulations_empty pnl_sequence_of_def)

theorem empty_sequence_not_rejected_witness:
  "(- 3::int) \<le> 0 \<and> run_simulations half_random [100, - 50] (- 3) 5000 = Inr [] \<and>
   run_simulations half_random [] 2 5000 =
     Inr [\<lparr>final_equity = 5000, max_drawdown = 0, curve = [5000]\<rparr>,
          \<lparr>final_equity = 5000, max_drawdown = 0, curve = [5000]\<rparr>]"
  using empty_sequence_not_rejected[of half_random "- 3" 5000 day_floor "[100, - 50]"]
    empty_sequence_not_rejected[of half_random 2 5000 day_floor "[]"]
  by (simp add: numeral_2_eq_2)

theorem empty_sequence_counterexample:
  "pnl_sequence_of day_floor [] = Inr [] \<and>
   monte_carlo zero_random [] =
     Inr (replicate 1000 \<lparr>final_equity = 5000, max_drawdown = 0, curve = [5000]\<rparr>) \<and>
   length (replicate 1000 \<lparr>final_equity = 5000::real, max_drawdown = 0::real, curve = [5000::real]\<rparr>) = 1000"
  by (simp add: run_simulations_def monte_carlo_def SIMULATIONS_def STARTING_EQUITY_def
      simulations_empty pnl_sequence_of_def)

end
